theory Spec2Isabelle
  imports Complex_Main
begin

section \<open>Data model\<close>

text \<open>
  The entry type of both program versions (main.go and the background-refresh variant):
  \<^verbatim>\<open>type CryptoInfo struct { Index, Image, Name, Price, Change24h string }\<close>.
  The field \<open>Image\<close> is written \<open>ImageURL\<close> here, because \<open>Image\<close> is the relational
  image of HOL.
\<close>

record CryptoInfo =
  Index :: string
  ImageURL :: string
  Name :: string
  Price :: string
  Change24h :: string

text \<open>
  How a run of the program stops before its normal end: a run-time panic of an index
  expression \<open>s[i]\<close> (index, length), of a slice expression \<open>s[i:j]\<close> (bounds, length),
  or \<open>log.Fatal\<close>, which exits the process.
\<close>

datatype abort =
  IndexOutOfRange nat nat
  | SliceOutOfRange nat nat nat
  | LogFatal

section \<open>categorizeResults\<close>

text \<open>
  Go's \<open>s[i:j]\<close> on a slice whose capacity is its length: panics unless
  \<open>i \<le> j \<le> len(s)\<close>.
\<close>

definition goSlice :: "'a list \<Rightarrow> nat \<Rightarrow> nat \<Rightarrow> abort + 'a list" where
  "goSlice s i j =
     (if i \<le> j \<and> j \<le> length s then Inr (take (j - i) (drop i s))
      else Inl (SliceOutOfRange i j (length s)))"

text \<open>Go's \<open>s[i]\<close>: panics unless \<open>i < len(s)\<close>.\<close>

definition goIndex :: "'a list \<Rightarrow> nat \<Rightarrow> abort + 'a" where
  "goIndex s i = (if i < length s then Inr (s ! i) else Inl (IndexOutOfRange i (length s)))"

text \<open>
  The loop of \<open>categorizeResults\<close>:
  \<^verbatim>\<open>
  for i := 0; i < len(allResults); i += 10 {
      end := i + 10
      if end > len(allResults) { end = len(allResults) }
      groupedResults = append(groupedResults, allResults[i:end])
  }
  return groupedResults
  \<close>
  The counter is a natural number: a Go \<open>int\<close> has 64 bits, and a slice cannot be
  long enough for \<open>i + 10\<close> to wrap.
\<close>

function categorizeLoop :: "nat \<Rightarrow> 'a list \<Rightarrow> 'a list list \<Rightarrow> abort + 'a list list" where
  "categorizeLoop i allResults groupedResults =
     (if i < length allResults then
        (let end = (if i + 10 > length allResults then length allResults else i + 10) in
         case goSlice allResults i end of
           Inl e \<Rightarrow> Inl e
         | Inr bucket \<Rightarrow> categorizeLoop (i + 10) allResults (groupedResults @ [bucket]))
      else Inr groupedResults)"
  by pat_completeness auto
termination
  by (relation "measure (\<lambda>(i, allResults, groupedResults). length allResults - i)") auto

declare categorizeLoop.simps [simp del]

definition categorizeResults :: "'a list \<Rightarrow> abort + 'a list list" where
  "categorizeResults allResults = categorizeLoop 0 allResults []"

section \<open>The outside world\<close>

text \<open>
  Errors of \<open>os.Stat\<close>, as the operating system reports them. \<open>os.IsNotExist\<close> is true of
  the not-exist error alone; it is false of \<open>nil\<close> and of every other error.
\<close>

datatype os_error = ENOENT | EACCES | ENOTDIR | EIO

definition os_IsNotExist :: "os_error option \<Rightarrow> bool" where
  "os_IsNotExist err = (err = Some ENOENT)"

text \<open>
  How one call of \<open>downloadImage\<close> goes, by the first step of it that fails:
  \<open>http.Get\<close>, \<open>os.MkdirAll\<close>, \<open>os.Create\<close>, \<open>io.Copy\<close>, or none.
\<close>

datatype download = GetFails | MkdirFails | CreateFails | CopyFails | Copied

text \<open>The lines the program writes with \<open>log.Printf\<close>, by their format string.\<close>

datatype logline =
  ErrorDownloadingImage string
  | ErrorCreatingDirectory
  | ErrorCreatingFile
  | ErrorWritingImage
  | ErrorFetchingPrices
  | ErrorDecodingPriceData
  | ErrorFetching24hChange
  | ErrorDecodingChangeData
  | ErrorParsingChangeValue string
  | RequestFailed
  | ErrorVisitingURL
  | FatalError

text \<open>
  The part of the world the program reads and changes: \<open>stat\<close> gives the error of
  \<open>os.Stat\<close> on a path (\<open>None\<close> is \<open>nil\<close>); \<open>downloads k\<close> tells how a download goes
  that starts after \<open>k\<close> calls of \<open>http.Get\<close>; \<open>fetched\<close> lists the URLs passed to
  \<open>http.Get\<close> so far, in order; \<open>logs\<close> lists the lines logged so far.
\<close>

record world =
  stat :: "string \<Rightarrow> os_error option"
  downloads :: "nat \<Rightarrow> download"
  fetched :: "string list"
  logs :: "logline list"

definition httpGet :: "string \<Rightarrow> world \<Rightarrow> world" where
  "httpGet url w = w\<lparr>fetched := fetched w @ [url]\<rparr>"

definition logPrintf :: "logline \<Rightarrow> world \<Rightarrow> world" where
  "logPrintf l w = w\<lparr>logs := logs w @ [l]\<rparr>"

text \<open>A file that \<open>os.Create\<close> has made is there for the next \<open>os.Stat\<close>.\<close>

definition osCreate :: "string \<Rightarrow> world \<Rightarrow> world" where
  "osCreate path w = w\<lparr>stat := (stat w)(path := None)\<rparr>"

text \<open>
  The functions of Go's standard library that the program calls on strings and floats.
  Type \<open>'f\<close> stands for \<open>float64\<close>: \<open>ParseFloat\<close> is \<open>strconv.ParseFloat(s, 64)\<close>
  (\<open>None\<close> when it returns an error), \<open>gtZero v\<close> is \<open>v > 0\<close>, \<open>Sprintf_2f\<close> is
  \<open>fmt.Sprintf("%.2f", v)\<close>, and \<open>unicodeToUpper\<close> is what \<open>strings.ToUpper\<close> does
  to a string that is not pure ASCII.
\<close>

record 'f golib =
  unicodeToUpper :: "string \<Rightarrow> string"
  ParseFloat :: "string \<Rightarrow> 'f option"
  gtZero :: "'f \<Rightarrow> bool"
  Sprintf_2f :: "'f \<Rightarrow> string"

section \<open>Strings and maps\<close>

definition asciiUpper :: "char \<Rightarrow> char" where
  "asciiUpper c =
     (let n = (of_char c :: nat) in if 97 \<le> n \<and> n \<le> 122 then char_of (n - 32) else c)"

text \<open>
  \<open>strings.ToUpper\<close>: a string of ASCII bytes has its letters \<open>a\<close> to \<open>z\<close> replaced;
  any other string goes through the Unicode mapping.
\<close>

definition ToUpper :: "'f golib \<Rightarrow> string \<Rightarrow> string" where
  "ToUpper lib s =
     (if list_all (\<lambda>c. (of_char c :: nat) < 128) s then map asciiUpper s
      else unicodeToUpper lib s)"

text \<open>\<open>strings.ReplaceAll(s, " ", "_")\<close>: each space byte becomes an underscore.\<close>

definition ReplaceAll_space :: "string \<Rightarrow> string" where
  "ReplaceAll_space s = map (\<lambda>c. if c = CHR '' '' then CHR ''_'' else c) s"

text \<open>Reading a Go map: a missing key gives the zero value, the empty string.\<close>

definition goMapGet :: "(string \<rightharpoonup> string) \<Rightarrow> string \<Rightarrow> string" where
  "goMapGet m k = (case m k of None \<Rightarrow> [] | Some v \<Rightarrow> v)"

section \<open>float64 in the standard library\<close>












section \<open>The image cache\<close>

text \<open>The path \<open>"images/" + filename\<close> of a cached image.\<close>

definition imagePath :: "string \<Rightarrow> string" where
  "imagePath filename = ''images/'' @ filename"

definition imageExists :: "world \<Rightarrow> string \<Rightarrow> bool" where
  "imageExists w filename = (\<not> os_IsNotExist (stat w (imagePath filename)))"

definition downloadImage :: "string \<Rightarrow> string \<Rightarrow> world \<Rightarrow> world" where
  "downloadImage url filename w =
     (case downloads w (length (fetched w)) of
        GetFails \<Rightarrow> logPrintf (ErrorDownloadingImage url) (httpGet url w)
      | MkdirFails \<Rightarrow> logPrintf ErrorCreatingDirectory (httpGet url w)
      | CreateFails \<Rightarrow> logPrintf ErrorCreatingFile (httpGet url w)
      | CopyFails \<Rightarrow> logPrintf ErrorWritingImage (osCreate (imagePath filename) (httpGet url w))
      | Copied \<Rightarrow> osCreate (imagePath filename) (httpGet url w))"

text \<open>
  The image resolution of the scraping callback (main.go lines 97 to 99, and the same
  lines of the refresh variant):
  \<^verbatim>\<open>if !imageExists(imageFilename) { downloadImage(info.Image, imageFilename) }\<close>
\<close>

definition resolveImage :: "string \<Rightarrow> string \<Rightarrow> world \<Rightarrow> world" where
  "resolveImage url imageFilename w =
     (if \<not> imageExists w imageFilename then downloadImage url imageFilename w else w)"

section \<open>The price source\<close>

record BinancePriceInfo =
  bpSymbol :: string
  bpPrice :: string

record BinanceTickerInfo =
  btSymbol :: string
  btPriceChangePercent :: string

text \<open>
  One endpoint of the price API, as a request finds it: \<open>http.Get\<close> fails, the body
  does not decode, or it decodes to a list of items.
\<close>

datatype 'a endpoint = FetchError | DecodeError | Decoded 'a

record api =
  tickerPrice :: "BinancePriceInfo list endpoint"
  ticker24hr :: "BinanceTickerInfo list endpoint"

text \<open>The two fixed URLs of \<open>getPricesAndChanges\<close>.\<close>

definition tickerPriceURL :: string where
  "tickerPriceURL = ''https://api.binance.com/api/v3/ticker/price''"

definition ticker24hrURL :: string where
  "ticker24hrURL = ''https://api.binance.com/api/v3/ticker/24hr''"

definition formatChange :: "'f golib \<Rightarrow> string \<Rightarrow> world \<Rightarrow> string \<times> world" where
  "formatChange lib change w =
     (case ParseFloat lib change of
        None \<Rightarrow> (change, logPrintf (ErrorParsingChangeValue change) w)
      | Some changeValue \<Rightarrow>
          if gtZero lib changeValue then (''+'' @ Sprintf_2f lib changeValue @ ''%'', w)
          else (Sprintf_2f lib changeValue @ ''%'', w))"

definition putPrice :: "(string \<rightharpoonup> string) \<Rightarrow> BinancePriceInfo \<Rightarrow> (string \<rightharpoonup> string)" where
  "putPrice prices item = prices(bpSymbol item \<mapsto> bpPrice item)"

definition putChange ::
  "'f golib \<Rightarrow> (string \<rightharpoonup> string) \<times> world \<Rightarrow> BinanceTickerInfo \<Rightarrow> (string \<rightharpoonup> string) \<times> world" where
  "putChange lib acc item =
     (let (s, w) = formatChange lib (btPriceChangePercent item) (snd acc)
      in ((fst acc)(btSymbol item \<mapsto> s), w))"

text \<open>
  \<open>getPricesAndChanges\<close>: both maps start empty; each failure logs and returns the two
  maps as they are at that point.
\<close>

definition getPricesAndChanges ::
  "'f golib \<Rightarrow> api \<Rightarrow> world \<Rightarrow> (string \<rightharpoonup> string) \<times> (string \<rightharpoonup> string) \<times> world" where
  "getPricesAndChanges lib a w =
     (let w1 = httpGet tickerPriceURL w in
      case tickerPrice a of
        FetchError \<Rightarrow> (Map.empty, Map.empty, logPrintf ErrorFetchingPrices w1)
      | DecodeError \<Rightarrow> (Map.empty, Map.empty, logPrintf ErrorDecodingPriceData w1)
      | Decoded priceData \<Rightarrow>
          (let prices = foldl putPrice Map.empty priceData;
               w2 = httpGet ticker24hrURL w1 in
           case ticker24hr a of
             FetchError \<Rightarrow> (prices, Map.empty, logPrintf ErrorFetching24hChange w2)
           | DecodeError \<Rightarrow> (prices, Map.empty, logPrintf ErrorDecodingChangeData w2)
           | Decoded changeData \<Rightarrow>
               (let (changes, w3) = foldl (putChange lib) (Map.empty, w2) changeData
                in (prices, changes, w3))))"

section \<open>The page extractor and the join\<close>

text \<open>
  One item block \<open>div.css-1qyk0y6\<close> of the ranking page, as the selectors of the callback
  read it: the index label, the \<open>src\<close> of the image, the name, and (in the refresh
  variant only) the price and the change.
\<close>

record htmlDiv =
  divIndex :: string
  divImg :: string
  divName :: string
  divPrice :: string
  divChange :: string

text \<open>
  What \<open>collyCollector.Visit(url)\<close> does: it returns an error before any callback has
  run (the flag tells whether the request itself failed, so that the \<open>OnError\<close>
  callback ran), or it runs the callback on the item blocks of the page, in document
  order.
\<close>

datatype visit = VisitError bool | Visited "htmlDiv list"

record request =
  reqTLS :: bool
  reqHost :: string

text \<open>The callback of main.go (lines 77 to 112) on one item block.\<close>

definition onDiv ::
  "'f golib \<Rightarrow> request \<Rightarrow> (string \<rightharpoonup> string) \<Rightarrow> (string \<rightharpoonup> string) \<Rightarrow>
     world \<times> CryptoInfo list \<Rightarrow> htmlDiv \<Rightarrow> world \<times> CryptoInfo list" where
  "onDiv lib req prices changes acc d =
     (let w = fst acc; allResults = snd acc;
          info = \<lparr>Index = divIndex d, ImageURL = divImg d, Name = divName d,
                  Price = [], Change24h = []\<rparr>
      in if Name info \<noteq> [] then
           (let symbol = ToUpper lib (Name info) @ ''USDT'';
                info1 = info\<lparr>Price := goMapGet prices symbol,
                              Change24h := goMapGet changes symbol\<rparr>
            in if ImageURL info1 \<noteq> [] then
                 (let imageFilename = ReplaceAll_space (Name info1) @ ''.jpg'';
                      w1 = resolveImage (ImageURL info1) imageFilename w;
                      scheme = (if reqTLS req then ''https'' else ''http'');
                      info2 = info1\<lparr>ImageURL :=
                                scheme @ ''://'' @ reqHost req @ ''/images/'' @ imageFilename\<rparr>
                  in (w1, allResults @ [info2]))
               else (w, allResults @ [info1]))
         else (w, allResults))"

text \<open>
  The callback of the refresh variant (lines 86 to 118): price and change come from the
  page, scheme and host are the globals \<open>"http"\<close> and \<open>"localhost:8080"\<close>.
\<close>

definition onDivRefresh :: "world \<times> CryptoInfo list \<Rightarrow> htmlDiv \<Rightarrow> world \<times> CryptoInfo list" where
  "onDivRefresh acc d =
     (let w = fst acc; allResults = snd acc;
          info = \<lparr>Index = divIndex d, ImageURL = divImg d, Name = divName d,
                  Price = [], Change24h = []\<rparr>
      in if Name info \<noteq> [] then
           (let info1 = info\<lparr>Price := divPrice d, Change24h := divChange d\<rparr>
            in if ImageURL info1 \<noteq> [] then
                 (let imageFilename = ReplaceAll_space (Name info1) @ ''.jpg'';
                      w1 = resolveImage (ImageURL info1) imageFilename w;
                      info2 = info1\<lparr>ImageURL :=
                                ''http'' @ ''://'' @ ''localhost:8080'' @ ''/images/'' @ imageFilename\<rparr>
                  in (w1, allResults @ [info2]))
               else (w, allResults @ [info1]))
         else (w, allResults))"

section \<open>Categorised results\<close>

text \<open>
  Lines 128 to 136 of main.go (133 to 142 of the refresh variant): the groups of ten, then
  the map literal that reads \<open>groupedResults[0]\<close> to \<open>groupedResults[3]\<close> in this order.
\<close>

definition categorize :: "CryptoInfo list \<Rightarrow> abort + (string \<rightharpoonup> CryptoInfo list)" where
  "categorize allResults =
     (case categorizeResults allResults of
        Inl e \<Rightarrow> Inl e
      | Inr groupedResults \<Rightarrow>
          (case goIndex groupedResults 0 of
             Inl e \<Rightarrow> Inl e
           | Inr g0 \<Rightarrow>
               (case goIndex groupedResults 1 of
                  Inl e \<Rightarrow> Inl e
                | Inr g1 \<Rightarrow>
                    (case goIndex groupedResults 2 of
                       Inl e \<Rightarrow> Inl e
                     | Inr g2 \<Rightarrow>
                         (case goIndex groupedResults 3 of
                            Inl e \<Rightarrow> Inl e
                          | Inr g3 \<Rightarrow>
                              Inr [''Populares'' \<mapsto> g0, ''Ganadores'' \<mapsto> g1,
                                   ''Perdedores'' \<mapsto> g2, ''MayorVolumen'' \<mapsto> g3])))))"

text \<open>
  The visit of the page in main.go (lines 75 to 114 and 122), when it succeeds: the
  callback runs on every item block, from no results.
\<close>

definition scrape ::
  "'f golib \<Rightarrow> request \<Rightarrow> (string \<rightharpoonup> string) \<Rightarrow> (string \<rightharpoonup> string) \<Rightarrow>
     world \<Rightarrow> htmlDiv list \<Rightarrow> world \<times> CryptoInfo list" where
  "scrape lib req prices changes w divs = foldl (onDiv lib req prices changes) (w, []) divs"

text \<open>The same visit in the refresh variant (lines 84 to 120 and 128).\<close>

definition scrapeRefresh :: "world \<Rightarrow> htmlDiv list \<Rightarrow> world \<times> CryptoInfo list" where
  "scrapeRefresh w divs = foldl onDivRefresh (w, []) divs"

text \<open>
  \<open>handleRequest\<close> of main.go. A run ends in \<open>Inl\<close> with the reason and the world it
  leaves (a panic is caught by the router's recovery; \<open>log.Fatal\<close> ends the process), or
  in \<open>Inr\<close> with the map it sends as JSON.
\<close>

definition handleRequest ::
  "'f golib \<Rightarrow> request \<Rightarrow> api \<Rightarrow> visit \<Rightarrow> world \<Rightarrow>
     (abort \<times> world) + ((string \<rightharpoonup> CryptoInfo list) \<times> world)" where
  "handleRequest lib req a page w =
     (let (prices, changes, w1) = getPricesAndChanges lib a w in
      case page of
        VisitError byRequest \<Rightarrow>
          Inl (LogFatal,
               logPrintf FatalError (if byRequest then logPrintf RequestFailed w1 else w1))
      | Visited divs \<Rightarrow>
          (let (w2, allResults) = scrape lib req prices changes w1 divs in
           case categorize allResults of
             Inl e \<Rightarrow> Inl (e, w2)
           | Inr categorizedResults \<Rightarrow> Inr (categorizedResults, w2)))"

text \<open>
  \<open>updateDataFromBinance\<close> of the refresh variant, on the global \<open>categorizedResults\<close>
  (\<open>None\<close> is the nil map the program starts with). It runs in a goroutine of its own
  with no \<open>recover\<close>: a panic (\<open>Inl\<close>) ends the whole process, the global with it.
\<close>

definition updateDataFromBinance ::
  "visit \<Rightarrow> (string \<rightharpoonup> CryptoInfo list) option \<times> world \<Rightarrow>
     (abort \<times> world) + ((string \<rightharpoonup> CryptoInfo list) option \<times> world)" where
  "updateDataFromBinance page st =
     (let (w1, allResults) =
            (case page of
               VisitError byRequest \<Rightarrow>
                 (logPrintf ErrorVisitingURL
                    (if byRequest then logPrintf RequestFailed (snd st) else snd st), [])
             | Visited divs \<Rightarrow> scrapeRefresh (snd st) divs)
      in case categorize allResults of
           Inl e \<Rightarrow> Inl (e, w1)
         | Inr m \<Rightarrow> Inr (Some m, w1))"

section \<open>Example inputs\<close>

text \<open>
  Concrete inputs for the closed theorems below. \<open>emptyAssets\<close> is a world whose asset
  directory holds no file and where every download reaches the server but cannot create
  its file; \<open>asciiLib\<close> is a standard library on which every \<open>ParseFloat\<close> fails.
\<close>

definition emptyAssets :: world where
  "emptyAssets = \<lparr>stat = (\<lambda>path. Some ENOENT), downloads = (\<lambda>k. CreateFails),
                   fetched = [], logs = []\<rparr>"

definition asciiLib :: "unit golib" where
  "asciiLib = \<lparr>unicodeToUpper = (\<lambda>s. s), ParseFloat = (\<lambda>s. None),
                gtZero = (\<lambda>v. False), Sprintf_2f = (\<lambda>v. [])\<rparr>"

definition plainRequest :: request where
  "plainRequest = \<lparr>reqTLS = False, reqHost = ''localhost:8080''\<rparr>"

definition noPrices :: api where
  "noPrices = \<lparr>tickerPrice = Decoded [], ticker24hr = Decoded []\<rparr>"

text \<open>An item block with a name and nothing else (no image, so no download).\<close>

definition divNamed :: "string \<Rightarrow> htmlDiv" where
  "divNamed n = \<lparr>divIndex = [], divImg = [], divName = n, divPrice = [], divChange = []\<rparr>"

text \<open>The entry the callback of main.go makes of \<open>divNamed n\<close> when no map has its symbol.\<close>

definition entryNamed :: "string \<Rightarrow> CryptoInfo" where
  "entryNamed n = \<lparr>Index = [], ImageURL = [], Name = n, Price = [], Change24h = []\<rparr>"



section \<open>Properties of categorizeResults\<close>

lemma categorizeLoop_done:
  "length xs \<le> i \<Longrightarrow> categorizeLoop i xs acc = Inr acc"
  by (simp add: categorizeLoop.simps)

lemma categorizeLoop_step:
  "i < length xs \<Longrightarrow>
     categorizeLoop i xs acc = categorizeLoop (i + 10) xs (acc @ [take 10 (drop i xs)])"
  by (subst categorizeLoop.simps) (auto simp: goSlice_def Let_def min_def)

lemma categorizeLoop_total: "\<exists>r. categorizeLoop i xs acc = Inr r"
proof (induction i xs acc rule: categorizeLoop.induct)
  case (1 i xs acc)
  show ?case
  proof (cases "i < length xs")
    case True
    have "goSlice xs i (if i + 10 > length xs then length xs else i + 10)
            = Inr (take 10 (drop i xs))"
      using True by (auto simp: goSlice_def min_def)
    from "1.IH" [OF True refl this] show ?thesis
      using True by (simp add: categorizeLoop_step)
  next
    case False
    then show ?thesis by (simp add: categorizeLoop_done)
  qed
qed

lemma categorizeLoop_concat:
  "categorizeLoop i xs acc = Inr r \<Longrightarrow> concat r = concat acc @ drop i xs"
proof (induction i xs acc arbitrary: r rule: categorizeLoop.induct)
  case (1 i xs acc)
  show ?case
  proof (cases "i < length xs")
    case True
    have s: "goSlice xs i (if i + 10 > length xs then length xs else i + 10)
            = Inr (take 10 (drop i xs))"
      using True by (auto simp: goSlice_def min_def)
    have "categorizeLoop (i + 10) xs (acc @ [take 10 (drop i xs)]) = Inr r"
      using "1.prems" True by (simp add: categorizeLoop_step)
    from "1.IH" [OF True refl s this]
    have "concat r = concat acc @ take 10 (drop i xs) @ drop (i + 10) xs" by simp
    moreover have "take 10 (drop i xs) @ drop (i + 10) xs = drop i xs"
      by (metis add.commute append_take_drop_id drop_drop)
    ultimately show ?thesis by simp
  next
    case False
    then show ?thesis using "1.prems" by (simp add: categorizeLoop_done)
  qed
qed

lemma chunk_count_step:
  "i < (n::nat) \<Longrightarrow> 1 + (n - (i + 10) + 9) div 10 = (n - i + 9) div 10"
proof (cases "i + 10 \<le> n")
  case True
  then have "n - i + 9 = (n - (i + 10) + 9) + 10" by simp
  then show ?thesis by (simp only: div_add_self2)
next
  case False
  assume "i < n"
  with False have "n - (i + 10) = 0" "10 \<le> n - i + 9" "n - i + 9 < 20" by simp_all
  then show ?thesis by simp
qed

lemma categorizeLoop_length:
  "categorizeLoop i xs acc = Inr r \<Longrightarrow> length r = length acc + (length xs - i + 9) div 10"
proof (induction i xs acc arbitrary: r rule: categorizeLoop.induct)
  case (1 i xs acc)
  show ?case
  proof (cases "i < length xs")
    case True
    have s: "goSlice xs i (if i + 10 > length xs then length xs else i + 10)
            = Inr (take 10 (drop i xs))"
      using True by (auto simp: goSlice_def min_def)
    have "categorizeLoop (i + 10) xs (acc @ [take 10 (drop i xs)]) = Inr r"
      using "1.prems" True by (simp add: categorizeLoop_step)
    from "1.IH" [OF True refl s this]
    have "length r = length acc + 1 + (length xs - (i + 10) + 9) div 10" by simp
    moreover have "1 + (length xs - (i + 10) + 9) div 10 = (length xs - i + 9) div 10"
      using True by (rule chunk_count_step)
    ultimately show ?thesis by simp
  next
    case False
    then show ?thesis using "1.prems" by (simp add: categorizeLoop_done)
  qed
qed

lemma categorizeLoop_full:
  "categorizeLoop i xs acc = Inr r \<Longrightarrow> (\<forall>b \<in> set acc. length b = 10) \<Longrightarrow>
     Suc k < length r \<Longrightarrow> length (r ! k) = 10"
proof (induction i xs acc arbitrary: r rule: categorizeLoop.induct)
  case (1 i xs acc)
  show ?case
  proof (cases "i < length xs")
    case True
    have s: "goSlice xs i (if i + 10 > length xs then length xs else i + 10)
            = Inr (take 10 (drop i xs))"
      using True by (auto simp: goSlice_def min_def)
    have next_call: "categorizeLoop (i + 10) xs (acc @ [take 10 (drop i xs)]) = Inr r"
      using "1.prems"(1) True by (simp add: categorizeLoop_step)
    show ?thesis
    proof (cases "i + 10 \<le> length xs")
      case True
      then have "\<forall>b \<in> set (acc @ [take 10 (drop i xs)]). length b = 10"
        using "1.prems"(2) by auto
      from "1.IH" [OF \<open>i < length xs\<close> refl s next_call this "1.prems"(3)]
      show ?thesis .
    next
      case False
      then have "r = acc @ [take 10 (drop i xs)]"
        using next_call by (simp add: categorizeLoop_done)
      then show ?thesis
        using "1.prems"(2,3) by (simp add: nth_append)
    qed
  next
    case False
    then have "r = acc" using "1.prems"(1) by (simp add: categorizeLoop_done)
    then show ?thesis using "1.prems"(2,3) by simp
  qed
qed

lemma ceiling_div_10: "nat \<lceil>real n / 10\<rceil> = (n + 9) div 10"
proof -
  have "\<lceil>real n / 10\<rceil> = \<lceil>(of_int (int n) :: real) / of_int 10\<rceil>" by simp
  also have "\<dots> = - ((- int n) div 10)"
    by (simp only: ceiling_divide_eq_div)
  finally have "\<lceil>real n / 10\<rceil> = - ((- int n) div 10)" .
  moreover have "- ((- int n) div 10) = int ((n + 9) div 10)"
    by (simp add: zdiv_int)
  ultimately show ?thesis by simp
qed

text \<open>
  Claim C1. For every input sequence of N entries, \<open>categorizeResults\<close> returns (without
  a panic) exactly ceil(N/10) buckets; every bucket except possibly the last has exactly
  10 entries; and the buckets concatenated in order are the input sequence itself.
\<close>

theorem categorizeResults_buckets:
  "\<exists>buckets. categorizeResults allResults = Inr buckets
     \<and> length buckets = nat \<lceil>real (length allResults) / 10\<rceil>
     \<and> (\<forall>k. Suc k < length buckets \<longrightarrow> length (buckets ! k) = 10)
     \<and> concat buckets = allResults"
proof -
  obtain buckets where b: "categorizeResults allResults = Inr buckets"
    using categorizeLoop_total [of 0 allResults "[]"] by (auto simp: categorizeResults_def)
  then have loop: "categorizeLoop 0 allResults [] = Inr buckets"
    by (simp add: categorizeResults_def)
  have "length buckets = nat \<lceil>real (length allResults) / 10\<rceil>"
    using categorizeLoop_length [OF loop] by (simp add: ceiling_div_10)
  moreover have "\<forall>k. Suc k < length buckets \<longrightarrow> length (buckets ! k) = 10"
    using categorizeLoop_full [OF loop] by simp
  moreover have "concat buckets = allResults"
    using categorizeLoop_concat [OF loop] by simp
  ultimately show ?thesis using b by blast
qed

theorem categorizeResults_buckets_witness:
  "categorizeResults [1, 2, 3, 4, 5, 6, 7, 8, 9, 10, 11, 12 :: nat]
     = Inr [[1, 2, 3, 4, 5, 6, 7, 8, 9, 10], [11, 12]]"
proof -
  obtain buckets where
    b: "categorizeResults [1, 2, 3, 4, 5, 6, 7, 8, 9, 10, 11, 12 :: nat] = Inr buckets"
    and n: "length buckets = nat \<lceil>real (length [1, 2, 3, 4, 5, 6, 7, 8, 9, 10, 11, 12 :: nat]) / 10\<rceil>"
    and f: "\<forall>k. Suc k < length buckets \<longrightarrow> length (buckets ! k) = 10"
    and c: "concat buckets = [1, 2, 3, 4, 5, 6, 7, 8, 9, 10, 11, 12 :: nat]"
    using categorizeResults_buckets [of "[1, 2, 3, 4, 5, 6, 7, 8, 9, 10, 11, 12 :: nat]"]
    by blast
  have "categorizeResults [1, 2, 3, 4, 5, 6, 7, 8, 9, 10, 11, 12 :: nat]
          = Inr [[1, 2, 3, 4, 5, 6, 7, 8, 9, 10], [11, 12]]"
    by (simp add: categorizeResults_def categorizeLoop.simps goSlice_def)
  then show ?thesis .
qed

section \<open>Properties of the categorised map\<close>

lemma categorizeLoop_nth:
  "categorizeLoop i xs acc = Inr r \<Longrightarrow> k < length r \<Longrightarrow>
     r ! k = (if k < length acc then acc ! k
              else take 10 (drop (i + 10 * (k - length acc)) xs))"
proof (induction i xs acc arbitrary: r rule: categorizeLoop.induct)
  case (1 i xs acc)
  show ?case
  proof (cases "i < length xs")
    case True
    have s: "goSlice xs i (if i + 10 > length xs then length xs else i + 10)
            = Inr (take 10 (drop i xs))"
      using True by (auto simp: goSlice_def min_def)
    have next_call: "categorizeLoop (i + 10) xs (acc @ [take 10 (drop i xs)]) = Inr r"
      using "1.prems"(1) True by (simp add: categorizeLoop_step)
    note ih = "1.IH" [OF True refl s next_call "1.prems"(2)]
    show ?thesis
    proof (cases "k < length acc")
      case True
      then show ?thesis using ih by (simp add: nth_append)
    next
      case False
      show ?thesis
      proof (cases "k = length acc")
        case True
        then show ?thesis using ih by (simp add: nth_append)
      next
        case neq: False
        with False have gt: "length acc < k" by simp
        then have e: "i + 10 + 10 * (k - Suc (length acc)) = i + 10 * (k - length acc)"
          by simp
        have "r ! k = take 10 (drop (i + 10 + 10 * (k - Suc (length acc))) xs)"
          using ih gt by simp
        then have "r ! k = take 10 (drop (i + 10 * (k - length acc)) xs)"
          by (simp only: e)
        then show ?thesis using False by simp
      qed
    qed
  next
    case False
    then have "r = acc" using "1.prems"(1) by (simp add: categorizeLoop_done)
    then show ?thesis using "1.prems"(2) by simp
  qed
qed

lemma categorizeResults_Inr:
  "categorizeResults xs = Inr (map (\<lambda>k. take 10 (drop (10 * k) xs)) [0..<(length xs + 9) div 10])"
proof -
  obtain r where r: "categorizeLoop 0 xs [] = Inr r"
    using categorizeLoop_total by blast
  have len: "length r = (length xs + 9) div 10"
    using categorizeLoop_length [OF r] by simp
  have "r = map (\<lambda>k. take 10 (drop (10 * k) xs)) [0..<(length xs + 9) div 10]"
    by (rule nth_equalityI) (simp_all add: len categorizeLoop_nth [OF r])
  then show ?thesis using r by (simp add: categorizeResults_def)
qed

lemma categorize_underflow_aux:
  assumes "length xs < 31"
  shows "categorize xs = Inl (IndexOutOfRange ((length xs + 9) div 10) ((length xs + 9) div 10))"
proof -
  let ?n = "(length xs + 9) div 10"
  have n: "?n < 4" using assms by simp
  then consider "?n = 0" | "?n = 1" | "?n = 2" | "?n = 3" by linarith
  then show ?thesis
    by cases (simp_all add: categorize_def categorizeResults_Inr goIndex_def)
qed

lemma categorize_ok:
  assumes "31 \<le> length xs"
  shows "categorize xs = Inr [''Populares'' \<mapsto> take 10 xs, ''Ganadores'' \<mapsto> take 10 (drop 10 xs),
            ''Perdedores'' \<mapsto> take 10 (drop 20 xs), ''MayorVolumen'' \<mapsto> take 10 (drop 30 xs)]"
proof -
  have "4 \<le> (length xs + 9) div 10" using assms by simp
  then show ?thesis
    by (simp add: categorize_def categorizeResults_Inr goIndex_def)
qed

section \<open>Properties of the join\<close>

lemma onDiv_skip: "divName d = [] \<Longrightarrow> onDiv lib req prices changes (w, rs) d = (w, rs)"
  by (simp add: onDiv_def)

lemma onDiv_append:
  "divName d \<noteq> [] \<Longrightarrow>
     \<exists>w' e. onDiv lib req prices changes (w, rs) d = (w', rs @ [e])
       \<and> Index e = divIndex d \<and> Name e = divName d
       \<and> Price e = goMapGet prices (ToUpper lib (divName d) @ ''USDT'')
       \<and> Change24h e = goMapGet changes (ToUpper lib (divName d) @ ''USDT'')"
  by (simp add: onDiv_def Let_def)

lemma foldl_onDiv_names:
  "map Name (snd (foldl (onDiv lib req prices changes) (w, rs) divs))
     = map Name rs @ filter (\<lambda>n. n \<noteq> []) (map divName divs)"
proof (induction divs arbitrary: w rs)
  case Nil
  then show ?case by simp
next
  case (Cons d divs)
  show ?case
  proof (cases "divName d = []")
    case True
    then show ?thesis using Cons.IH [of w rs] by (simp add: onDiv_skip)
  next
    case False
    from onDiv_append [OF False, of lib req prices changes w rs]
    obtain w' e where
      step: "onDiv lib req prices changes (w, rs) d = (w', rs @ [e])" and "Name e = divName d"
      by blast
    then show ?thesis using False Cons.IH [of w' "rs @ [e]"] by simp
  qed
qed

lemma foldl_onDiv_joined:
  "list_all (\<lambda>e. Name e \<noteq> []
        \<and> Price e = goMapGet prices (ToUpper lib (Name e) @ ''USDT'')
        \<and> Change24h e = goMapGet changes (ToUpper lib (Name e) @ ''USDT'')) rs \<Longrightarrow>
   list_all (\<lambda>e. Name e \<noteq> []
        \<and> Price e = goMapGet prices (ToUpper lib (Name e) @ ''USDT'')
        \<and> Change24h e = goMapGet changes (ToUpper lib (Name e) @ ''USDT''))
     (snd (foldl (onDiv lib req prices changes) (w, rs) divs))"
proof (induction divs arbitrary: w rs)
  case Nil
  then show ?case by simp
next
  case (Cons d divs)
  show ?case
  proof (cases "divName d = []")
    case True
    then show ?thesis using Cons.IH [OF Cons.prems, of w] by (simp add: onDiv_skip)
  next
    case False
    from onDiv_append [OF False, of lib req prices changes w rs]
    obtain w' e where
      step: "onDiv lib req prices changes (w, rs) d = (w', rs @ [e])"
      and e: "Name e = divName d"
        "Price e = goMapGet prices (ToUpper lib (divName d) @ ''USDT'')"
        "Change24h e = goMapGet changes (ToUpper lib (divName d) @ ''USDT'')"
      by blast
    have "list_all (\<lambda>e. Name e \<noteq> []
        \<and> Price e = goMapGet prices (ToUpper lib (Name e) @ ''USDT'')
        \<and> Change24h e = goMapGet changes (ToUpper lib (Name e) @ ''USDT'')) (rs @ [e])"
      using Cons.prems False e by simp
    from Cons.IH [OF this, of w'] show ?thesis using step by simp
  qed
qed

lemma onDivRefresh_skip: "divName d = [] \<Longrightarrow> onDivRefresh (w, rs) d = (w, rs)"
  by (simp add: onDivRefresh_def)

lemma onDivRefresh_append:
  "divName d \<noteq> [] \<Longrightarrow>
     \<exists>w' e. onDivRefresh (w, rs) d = (w', rs @ [e]) \<and> Name e = divName d"
  by (simp add: onDivRefresh_def Let_def)

lemma foldl_onDivRefresh_names:
  "map Name (snd (foldl onDivRefresh (w, rs) divs))
     = map Name rs @ filter (\<lambda>n. n \<noteq> []) (map divName divs)"
proof (induction divs arbitrary: w rs)
  case Nil
  then show ?case by simp
next
  case (Cons d divs)
  show ?case
  proof (cases "divName d = []")
    case True
    then show ?thesis using Cons.IH [of w rs] by (simp add: onDivRefresh_skip)
  next
    case False
    from onDivRefresh_append [OF False, of w rs]
    obtain w' e where
      step: "onDivRefresh (w, rs) d = (w', rs @ [e])" and "Name e = divName d"
      by blast
    then show ?thesis using False Cons.IH [of w' "rs @ [e]"] by simp
  qed
qed

lemma scrape_names:
  "map Name (snd (scrape lib req prices changes w divs)) = filter (\<lambda>n. n \<noteq> []) (map divName divs)"
  using foldl_onDiv_names [of lib req prices changes w "[]" divs] by (simp add: scrape_def)

lemma scrapeRefresh_names:
  "map Name (snd (scrapeRefresh w divs)) = filter (\<lambda>n. n \<noteq> []) (map divName divs)"
  using foldl_onDivRefresh_names [of w "[]" divs] by (simp add: scrapeRefresh_def)

lemma scrape_length:
  "length (snd (scrape lib req prices changes w divs)) = length (filter (\<lambda>n. n \<noteq> []) (map divName divs))"
  using arg_cong [OF scrape_names, of length] by simp

lemma scrapeRefresh_length:
  "length (snd (scrapeRefresh w divs)) = length (filter (\<lambda>n. n \<noteq> []) (map divName divs))"
  using arg_cong [OF scrapeRefresh_names, of length] by simp

section \<open>Properties of a cycle\<close>

lemma updateDataFromBinance_Visited:
  "updateDataFromBinance (Visited divs) st =
     (case categorize (snd (scrapeRefresh (snd st) divs)) of
        Inl e \<Rightarrow> Inl (e, fst (scrapeRefresh (snd st) divs))
      | Inr m \<Rightarrow> Inr (Some m, fst (scrapeRefresh (snd st) divs)))"
  by (simp add: updateDataFromBinance_def split_beta)

lemma handleRequest_Visited:
  "handleRequest lib req a (Visited divs) w =
     (let prices = fst (getPricesAndChanges lib a w);
          changes = fst (snd (getPricesAndChanges lib a w));
          w1 = snd (snd (getPricesAndChanges lib a w))
      in case categorize (snd (scrape lib req prices changes w1 divs)) of
           Inl e \<Rightarrow> Inl (e, fst (scrape lib req prices changes w1 divs))
         | Inr m \<Rightarrow> Inr (m, fst (scrape lib req prices changes w1 divs)))"
  by (simp add: handleRequest_def split_beta Let_def)

text \<open>
  Claim C2. A result sequence of fewer than 31 entries gives fewer than 4 buckets, and the
  map literal then reads a bucket that is not there: the run-time panic of the index
  expression, at the first missing index. So a refresh cycle (and a request of main.go)
  whose page has fewer than 31 named item blocks ends in that panic; no map with empty
  buckets is made.
\<close>

theorem categorize_underflow:
  "(length allResults < 31 \<longrightarrow>
      (\<exists>groupedResults. categorizeResults allResults = Inr groupedResults
         \<and> length groupedResults < 4
         \<and> categorize allResults
             = Inl (IndexOutOfRange (length groupedResults) (length groupedResults))))
   \<and> (length (filter (\<lambda>n. n \<noteq> []) (map divName divs)) < 31 \<longrightarrow>
        (\<exists>n w'. n < 4 \<and> updateDataFromBinance (Visited divs) st = Inl (IndexOutOfRange n n, w'))
      \<and> (\<exists>n w'. n < 4 \<and> handleRequest lib req a (Visited divs) w = Inl (IndexOutOfRange n n, w')))"
proof (intro conjI impI)
  assume small: "length allResults < 31"
  have "categorizeResults allResults
          = Inr (map (\<lambda>k. take 10 (drop (10 * k) allResults)) [0..<(length allResults + 9) div 10])"
    by (rule categorizeResults_Inr)
  moreover have "(length allResults + 9) div 10 < 4" using small by simp
  ultimately show "\<exists>groupedResults. categorizeResults allResults = Inr groupedResults
         \<and> length groupedResults < 4
         \<and> categorize allResults
             = Inl (IndexOutOfRange (length groupedResults) (length groupedResults))"
    using categorize_underflow_aux [OF small] by simp
next
  assume small: "length (filter (\<lambda>n. n \<noteq> []) (map divName divs)) < 31"
  let ?rs = "snd (scrapeRefresh (snd st) divs)"
  have "length ?rs < 31" using small by (simp only: scrapeRefresh_length)
  from categorize_underflow_aux [OF this]
  have "updateDataFromBinance (Visited divs) st
          = Inl (IndexOutOfRange ((length ?rs + 9) div 10) ((length ?rs + 9) div 10),
                 fst (scrapeRefresh (snd st) divs))"
    by (simp add: updateDataFromBinance_Visited)
  moreover have "(length ?rs + 9) div 10 < 4" using \<open>length ?rs < 31\<close> by simp
  ultimately show
    "\<exists>n w'. n < 4 \<and> updateDataFromBinance (Visited divs) st = Inl (IndexOutOfRange n n, w')"
    by blast
next
  assume small: "length (filter (\<lambda>n. n \<noteq> []) (map divName divs)) < 31"
  let ?g = "getPricesAndChanges lib a w"
  let ?s = "scrape lib req (fst ?g) (fst (snd ?g)) (snd (snd ?g)) divs"
  have len: "length (snd ?s) < 31" using small by (simp only: scrape_length)
  from categorize_underflow_aux [OF this]
  have "handleRequest lib req a (Visited divs) w
          = Inl (IndexOutOfRange ((length (snd ?s) + 9) div 10) ((length (snd ?s) + 9) div 10),
                 fst ?s)"
    by (simp add: handleRequest_Visited Let_def)
  moreover have "(length (snd ?s) + 9) div 10 < 4" using len by simp
  ultimately show
    "\<exists>n w'. n < 4 \<and> handleRequest lib req a (Visited divs) w = Inl (IndexOutOfRange n n, w')"
    by blast
qed

theorem categorize_underflow_witness:
  "length (replicate 5 (entryNamed ''BTC'')) < 31
   \<and> categorize (replicate 5 (entryNamed ''BTC'')) = Inl (IndexOutOfRange 1 1)
   \<and> length (filter (\<lambda>n. n \<noteq> []) (map divName [divNamed ''BTC''])) < 31
   \<and> isl (updateDataFromBinance (Visited [divNamed ''BTC'']) (None, emptyAssets))
   \<and> isl (handleRequest asciiLib plainRequest noPrices (Visited [divNamed ''BTC'']) emptyAssets)"
proof -
  have one: "categorizeResults (replicate 5 (entryNamed ''BTC'')) = Inr [replicate 5 (entryNamed ''BTC'')]"
    by (simp add: categorizeResults_Inr)
  have small: "length (filter (\<lambda>n. n \<noteq> []) (map divName [divNamed ''BTC''])) < 31"
    by (simp add: divNamed_def)
  note t = categorize_underflow [where allResults = "replicate 5 (entryNamed ''BTC'')"
      and divs = "[divNamed ''BTC'']" and st = "(None, emptyAssets)" and lib = asciiLib
      and req = plainRequest and a = noPrices and w = emptyAssets]
  from t have "categorize (replicate 5 (entryNamed ''BTC'')) = Inl (IndexOutOfRange 1 1)"
    using one by auto
  moreover from t small
  have "isl (updateDataFromBinance (Visited [divNamed ''BTC'']) (None, emptyAssets))"
    by auto
  moreover from t small
  have "isl (handleRequest asciiLib plainRequest noPrices (Visited [divNamed ''BTC'']) emptyAssets)"
    by auto
  ultimately show ?thesis using small by simp
qed

text \<open>
  Claim C4, at the input where it fails. When the visit of the page fails, the refresh
  variant logs the error and goes on with no entries; the map literal then reads
  \<open>groupedResults[0]\<close> of no groups and panics, in a goroutine with no \<open>recover\<close>:
  the process ends, and the map of the cycle before is gone with it. main.go calls
  \<open>log.Fatal\<close> on the same failure.
\<close>

theorem failed_visit_ends_process:
  "updateDataFromBinance (VisitError byRequest) (categorizedResults, w)
     = Inl (IndexOutOfRange 0 0,
            logPrintf ErrorVisitingURL (if byRequest then logPrintf RequestFailed w else w))
   \<and> (\<exists>w'. handleRequest lib req a (VisitError byRequest) w = Inl (LogFatal, w'))"
proof
  have "categorize [] = Inl (IndexOutOfRange 0 0)"
    using categorize_underflow_aux [of "[]"] by simp
  then show "updateDataFromBinance (VisitError byRequest) (categorizedResults, w)
     = Inl (IndexOutOfRange 0 0,
            logPrintf ErrorVisitingURL (if byRequest then logPrintf RequestFailed w else w))"
    by (simp add: updateDataFromBinance_def)
  show "\<exists>w'. handleRequest lib req a (VisitError byRequest) w = Inl (LogFatal, w')"
    by (simp add: handleRequest_def split_beta)
qed

text \<open>
  Claim C6. For every item block with a name, the callback appends one entry whose price
  is the price map read at \<open>ToUpper(name) + "USDT"\<close> (the empty string when the key is
  missing); so it is for every entry of a visit. With the price map
  \<open>{"BTCUSDT": "65000.00"}\<close> and the name \<open>"Btc"\<close> the key is \<open>"BTCUSDT"\<close> and the
  price of the entry is \<open>"65000.00"\<close>.
\<close>

theorem symbol_join:
  "(divName d \<noteq> [] \<longrightarrow>
      (\<exists>w' info. onDiv lib req prices changes (w, allResults) d = (w', allResults @ [info])
         \<and> Name info = divName d
         \<and> Price info = goMapGet prices (ToUpper lib (divName d) @ ''USDT'')))
   \<and> list_all (\<lambda>info. Price info = goMapGet prices (ToUpper lib (Name info) @ ''USDT''))
        (snd (scrape lib req prices changes w divs))
   \<and> ToUpper lib ''Btc'' @ ''USDT'' = ''BTCUSDT''
   \<and> (divName d = ''Btc'' \<longrightarrow>
        (\<exists>w' info. onDiv lib req [''BTCUSDT'' \<mapsto> ''65000.00''] changes (w, allResults) d
                      = (w', allResults @ [info])
           \<and> Price info = ''65000.00''))"
proof (intro conjI impI)
  assume "divName d \<noteq> []"
  from onDiv_append [OF this, of lib req prices changes w allResults]
  show "\<exists>w' info. onDiv lib req prices changes (w, allResults) d = (w', allResults @ [info])
         \<and> Name info = divName d
         \<and> Price info = goMapGet prices (ToUpper lib (divName d) @ ''USDT'')"
    by blast
next
  have "list_all (\<lambda>e. Name e \<noteq> []
        \<and> Price e = goMapGet prices (ToUpper lib (Name e) @ ''USDT'')
        \<and> Change24h e = goMapGet changes (ToUpper lib (Name e) @ ''USDT''))
     (snd (scrape lib req prices changes w divs))"
    unfolding scrape_def by (rule foldl_onDiv_joined) simp
  then show "list_all (\<lambda>info. Price info = goMapGet prices (ToUpper lib (Name info) @ ''USDT''))
        (snd (scrape lib req prices changes w divs))"
    by (simp add: list_all_iff)
next
  show upper: "ToUpper lib ''Btc'' @ ''USDT'' = ''BTCUSDT''"
    by (simp add: ToUpper_def asciiUpper_def char_of_def bit_Suc_0_iff)
  assume btc: "divName d = ''Btc''"
  then have "divName d \<noteq> []" by simp
  from onDiv_append [OF this, of lib req "[''BTCUSDT'' \<mapsto> ''65000.00'']" changes w allResults]
  obtain w' info where
    "onDiv lib req [''BTCUSDT'' \<mapsto> ''65000.00''] changes (w, allResults) d = (w', allResults @ [info])"
    "Price info = goMapGet [''BTCUSDT'' \<mapsto> ''65000.00''] (ToUpper lib (divName d) @ ''USDT'')"
    by blast
  moreover have "goMapGet [''BTCUSDT'' \<mapsto> ''65000.00''] (ToUpper lib (divName d) @ ''USDT'') = ''65000.00''"
    by (simp only: btc upper) (simp add: goMapGet_def)
  ultimately show "\<exists>w' info. onDiv lib req [''BTCUSDT'' \<mapsto> ''65000.00''] changes (w, allResults) d
                      = (w', allResults @ [info])
           \<and> Price info = ''65000.00''"
    by auto
qed

theorem symbol_join_witness:
  "divName (divNamed ''Btc'') = ''Btc''
   \<and> snd (onDiv asciiLib plainRequest [''BTCUSDT'' \<mapsto> ''65000.00''] Map.empty
            (emptyAssets, []) (divNamed ''Btc''))
       = [\<lparr>Index = [], ImageURL = [], Name = ''Btc'', Price = ''65000.00'', Change24h = []\<rparr>]"
proof -
  have n: "divName (divNamed ''Btc'') = ''Btc''" by (simp add: divNamed_def)
  from symbol_join [where d = "divNamed ''Btc''" and lib = asciiLib and req = plainRequest
      and prices = "[''BTCUSDT'' \<mapsto> ''65000.00'']" and changes = Map.empty
      and w = emptyAssets and allResults = "[]" and divs = "[]"] n
  obtain w' info where
    r: "onDiv asciiLib plainRequest [''BTCUSDT'' \<mapsto> ''65000.00''] Map.empty (emptyAssets, [])
          (divNamed ''Btc'') = (w', [info])"
    and p: "Price info = ''65000.00''" and nm: "Name info = ''Btc''"
    by auto
  have "Index info = [] \<and> ImageURL info = [] \<and> Change24h info = []"
    using r by (auto simp: onDiv_def divNamed_def Let_def goMapGet_def)
  then have "info = \<lparr>Index = [], ImageURL = [], Name = ''Btc'', Price = ''65000.00'', Change24h = []\<rparr>"
    using p nm by (cases info) simp
  then show ?thesis using r n by simp
qed

section \<open>Properties of the image cache\<close>

lemma fetched_downloadImage: "fetched (downloadImage url filename w) = fetched w @ [url]"
  by (simp add: downloadImage_def httpGet_def logPrintf_def osCreate_def split: download.split)

lemma stat_downloadImage:
  "stat (downloadImage url filename w) (imagePath filename) =
     (if downloads w (length (fetched w)) = CopyFails \<or> downloads w (length (fetched w)) = Copied
      then None else stat w (imagePath filename))"
  by (simp add: downloadImage_def httpGet_def logPrintf_def osCreate_def split: download.split)

text \<open>
  Claim C10. \<open>imageExists\<close> reports a file as present for every outcome of \<open>os.Stat\<close>
  but the not-exist error: success and any other error (a permission error, say) both
  count as a cache hit. The image resolution downloads, with one \<open>http.Get\<close>, exactly
  when the error is not-exist, and does nothing otherwise.
\<close>

theorem imageExists_unless_not_exist:
  "imageExists w filename = (stat w (imagePath filename) \<noteq> Some ENOENT)
   \<and> resolveImage url filename w
       = (if stat w (imagePath filename) = Some ENOENT then downloadImage url filename w else w)
   \<and> fetched (resolveImage url filename w)
       = (if stat w (imagePath filename) = Some ENOENT then fetched w @ [url] else fetched w)"
  by (simp add: imageExists_def os_IsNotExist_def resolveImage_def fetched_downloadImage)

theorem imageExists_unless_not_exist_witness:
  "imageExists (emptyAssets\<lparr>stat := (\<lambda>path. Some EACCES)\<rparr>) ''BTC.jpg''
   \<and> imageExists (emptyAssets\<lparr>stat := (\<lambda>path. None)\<rparr>) ''BTC.jpg''
   \<and> \<not> imageExists emptyAssets ''BTC.jpg''
   \<and> fetched (resolveImage ''https://bin.bnbstatic.com/btc.png'' ''BTC.jpg''
                (emptyAssets\<lparr>stat := (\<lambda>path. Some EACCES)\<rparr>)) = []
   \<and> fetched (resolveImage ''https://bin.bnbstatic.com/btc.png'' ''BTC.jpg'' emptyAssets)
       = [''https://bin.bnbstatic.com/btc.png'']"
proof -
  let ?u = "''https://bin.bnbstatic.com/btc.png''"
  let ?denied = "emptyAssets\<lparr>stat := (\<lambda>path. Some EACCES)\<rparr>"
  let ?there = "emptyAssets\<lparr>stat := (\<lambda>path. None)\<rparr>"
  have s: "stat ?denied (imagePath ''BTC.jpg'') = Some EACCES"
    "stat ?there (imagePath ''BTC.jpg'') = None"
    "stat emptyAssets (imagePath ''BTC.jpg'') = Some ENOENT"
    "fetched ?denied = []" "fetched emptyAssets = []"
    by (simp_all add: emptyAssets_def)
  have "imageExists ?denied ''BTC.jpg''"
    using imageExists_unless_not_exist [of ?denied "''BTC.jpg''" ?u] s by simp
  moreover have "imageExists ?there ''BTC.jpg''"
    using imageExists_unless_not_exist [of ?there "''BTC.jpg''" ?u] s by simp
  moreover have "\<not> imageExists emptyAssets ''BTC.jpg''"
    using imageExists_unless_not_exist [of emptyAssets "''BTC.jpg''" ?u] s by simp
  moreover have "fetched (resolveImage ?u ''BTC.jpg'' ?denied) = []"
  proof -
    from imageExists_unless_not_exist [of ?denied "''BTC.jpg''" ?u]
    have "fetched (resolveImage ?u ''BTC.jpg'' ?denied)
            = (if stat ?denied (imagePath ''BTC.jpg'') = Some ENOENT then fetched ?denied @ [?u]
               else fetched ?denied)"
      by blast
    then show ?thesis by (simp add: s)
  qed
  moreover have "fetched (resolveImage ?u ''BTC.jpg'' emptyAssets) = [?u]"
  proof -
    from imageExists_unless_not_exist [of emptyAssets "''BTC.jpg''" ?u]
    have "fetched (resolveImage ?u ''BTC.jpg'' emptyAssets)
            = (if stat emptyAssets (imagePath ''BTC.jpg'') = Some ENOENT then fetched emptyAssets @ [?u]
               else fetched emptyAssets)"
      by blast
    then show ?thesis by (simp add: s)
  qed
  ultimately show ?thesis by blast
qed

text \<open>
  Claim C9 fails as stated: in an empty asset directory where the download reaches the
  server but the file cannot be created, two image resolutions with the same file name
  make two network fetches.
\<close>

theorem resolveImage_twice_counterexample:
  "fetched (resolveImage ''https://bin.bnbstatic.com/btc.png'' ''BTC.jpg''
             (resolveImage ''https://bin.bnbstatic.com/btc.png'' ''BTC.jpg'' emptyAssets))
     = [''https://bin.bnbstatic.com/btc.png'', ''https://bin.bnbstatic.com/btc.png'']"
  by (simp add: resolveImage_def imageExists_def os_IsNotExist_def downloadImage_def
      httpGet_def logPrintf_def emptyAssets_def)

text \<open>
  Claim C9, amended. An image resolution that finds a file under its file name makes no
  network call and changes nothing. After a first resolution the file is there exactly
  when it was there before or the download got as far as creating it; and then a second
  resolution with the same file name short-circuits, so that the two calls make at most
  one network fetch. A resolution that finds no file makes one network fetch; and when
  that download fails before the file is created (\<open>http.Get\<close>, \<open>os.MkdirAll\<close> or
  \<open>os.Create\<close> fails), the file is still not there and a second resolution fetches
  again: the two calls make two network fetches.
\<close>

theorem resolveImage_cached:
  "(imageExists w filename \<longrightarrow> resolveImage url filename w = w)
   \<and> imageExists (resolveImage url filename w) filename
       = (imageExists w filename \<or> downloads w (length (fetched w)) = CopyFails
            \<or> downloads w (length (fetched w)) = Copied)
   \<and> (imageExists (resolveImage url filename w) filename \<longrightarrow>
        resolveImage later filename (resolveImage url filename w) = resolveImage url filename w
        \<and> length (fetched (resolveImage later filename (resolveImage url filename w)))
            \<le> length (fetched w) + 1)
   \<and> (\<not> imageExists w filename \<longrightarrow>
        fetched (resolveImage url filename w) = fetched w @ [url])
   \<and> (\<not> imageExists w filename
        \<and> (downloads w (length (fetched w)) = GetFails
             \<or> downloads w (length (fetched w)) = MkdirFails
             \<or> downloads w (length (fetched w)) = CreateFails) \<longrightarrow>
        \<not> imageExists (resolveImage url filename w) filename
        \<and> fetched (resolveImage later filename (resolveImage url filename w))
            = fetched w @ [url, later])"
proof (intro conjI impI)
  show "imageExists w filename \<Longrightarrow> resolveImage url filename w = w"
    by (simp add: resolveImage_def)
  show after: "imageExists (resolveImage url filename w) filename
       = (imageExists w filename \<or> downloads w (length (fetched w)) = CopyFails
            \<or> downloads w (length (fetched w)) = Copied)"
    by (auto simp: resolveImage_def imageExists_def os_IsNotExist_def stat_downloadImage)
  show first: "\<not> imageExists w filename \<Longrightarrow>
        fetched (resolveImage url filename w) = fetched w @ [url]"
    by (simp add: resolveImage_def fetched_downloadImage)
  {
    assume hit: "imageExists (resolveImage url filename w) filename"
    then show "resolveImage later filename (resolveImage url filename w)
                 = resolveImage url filename w"
      by (simp add: resolveImage_def [of later])
    then show "length (fetched (resolveImage later filename (resolveImage url filename w)))
              \<le> length (fetched w) + 1"
      by (simp add: resolveImage_def [of url] fetched_downloadImage)
  }
  {
    assume failed: "\<not> imageExists w filename
        \<and> (downloads w (length (fetched w)) = GetFails
             \<or> downloads w (length (fetched w)) = MkdirFails
             \<or> downloads w (length (fetched w)) = CreateFails)"
    then show still: "\<not> imageExists (resolveImage url filename w) filename"
      using after by auto
    have "fetched (resolveImage later filename (resolveImage url filename w))
            = fetched (resolveImage url filename w) @ [later]"
      using still by (simp add: resolveImage_def [of later] fetched_downloadImage)
    then show "fetched (resolveImage later filename (resolveImage url filename w))
            = fetched w @ [url, later]"
      using first failed by simp
  }
qed

theorem resolveImage_cached_witness:
  "imageExists (resolveImage ''https://bin.bnbstatic.com/btc.png'' ''BTC.jpg''
       (emptyAssets\<lparr>downloads := (\<lambda>k. Copied)\<rparr>)) ''BTC.jpg''
   \<and> fetched (resolveImage ''https://bin.bnbstatic.com/btc.png'' ''BTC.jpg''
        (resolveImage ''https://bin.bnbstatic.com/btc.png'' ''BTC.jpg''
           (emptyAssets\<lparr>downloads := (\<lambda>k. Copied)\<rparr>)))
       = [''https://bin.bnbstatic.com/btc.png'']
   \<and> \<not> imageExists (emptyAssets\<lparr>downloads := (\<lambda>k. GetFails)\<rparr>) ''BTC.jpg''
   \<and> fetched (resolveImage ''https://bin.bnbstatic.com/btc.png'' ''BTC.jpg''
        (resolveImage ''https://bin.bnbstatic.com/btc.png'' ''BTC.jpg''
           (emptyAssets\<lparr>downloads := (\<lambda>k. GetFails)\<rparr>)))
       = [''https://bin.bnbstatic.com/btc.png'', ''https://bin.bnbstatic.com/btc.png'']"
proof -
  let ?w = "emptyAssets\<lparr>downloads := (\<lambda>k. Copied)\<rparr>"
  let ?v = "emptyAssets\<lparr>downloads := (\<lambda>k. GetFails)\<rparr>"
  let ?u = "''https://bin.bnbstatic.com/btc.png''"
  note t = resolveImage_cached [where w = ?w and filename = "''BTC.jpg''" and url = ?u and later = ?u]
  note t' = resolveImage_cached [where w = ?v and filename = "''BTC.jpg''" and url = ?u and later = ?u]
  have e: "imageExists (resolveImage ?u ''BTC.jpg'' ?w) ''BTC.jpg''"
    using t by simp
  with t have "resolveImage ?u ''BTC.jpg'' (resolveImage ?u ''BTC.jpg'' ?w) = resolveImage ?u ''BTC.jpg'' ?w"
    by blast
  moreover have "fetched (resolveImage ?u ''BTC.jpg'' ?w) = [?u]"
    by (simp add: resolveImage_def imageExists_def os_IsNotExist_def fetched_downloadImage emptyAssets_def)
  ultimately have one: "fetched (resolveImage ?u ''BTC.jpg'' (resolveImage ?u ''BTC.jpg'' ?w)) = [?u]"
    by simp
  have absent: "\<not> imageExists ?v ''BTC.jpg''"
    by (simp add: imageExists_def os_IsNotExist_def emptyAssets_def)
  have "downloads ?v (length (fetched ?v)) = GetFails" "fetched ?v = []"
    by (simp_all add: emptyAssets_def)
  with t' absent
  have two: "fetched (resolveImage ?u ''BTC.jpg'' (resolveImage ?u ''BTC.jpg'' ?v)) = [?u, ?u]"
    by simp
  show ?thesis using e one absent two by blast
qed

section \<open>Properties of the price source\<close>

lemma dom_foldl_putPrice: "dom (foldl putPrice m priceData) = dom m \<union> bpSymbol ` set priceData"
  by (induction priceData arbitrary: m) (auto simp: putPrice_def)

lemma formatChange_fetched: "fetched (snd (formatChange lib change w)) = fetched w"
  by (simp add: formatChange_def logPrintf_def split: option.split)

lemma putChange_fetched: "fetched (snd (putChange lib (m, w) item)) = fetched w"
  using formatChange_fetched [of lib "btPriceChangePercent item" w]
  by (simp add: putChange_def split_beta)

lemma putChange_dom: "dom (fst (putChange lib (m, w) item)) = insert (btSymbol item) (dom m)"
  by (simp add: putChange_def split_beta)

lemma foldl_putChange:
  "dom (fst (foldl (putChange lib) (m, w) changeData)) = dom m \<union> btSymbol ` set changeData
   \<and> fetched (snd (foldl (putChange lib) (m, w) changeData)) = fetched w"
proof (induction changeData arbitrary: m w)
  case Nil
  then show ?case by simp
next
  case (Cons item changeData)
  obtain m' w' where step: "putChange lib (m, w) item = (m', w')"
    by (cases "putChange lib (m, w) item")
  have "dom m' = insert (btSymbol item) (dom m)" "fetched w' = fetched w"
    using putChange_dom [of lib m w item] putChange_fetched [of lib m w item] step by simp_all
  then show ?case using Cons.IH [of m' w'] step by auto
qed

text \<open>
  Claim C8 fails as stated: when the fetch of the prices fails while the 24h endpoint
  would answer with data, the changes are empty as well, and the 24h endpoint is never
  requested.
\<close>

theorem getPricesAndChanges_counterexample:
  "getPricesAndChanges asciiLib
     \<lparr>tickerPrice = FetchError,
      ticker24hr = Decoded [\<lparr>btSymbol = ''BTCUSDT'', btPriceChangePercent = ''3.5''\<rparr>]\<rparr>
     emptyAssets
   = (Map.empty, Map.empty,
      emptyAssets\<lparr>fetched := [tickerPriceURL],
                   logs := [ErrorFetchingPrices]\<rparr>)"
  by (simp add: getPricesAndChanges_def httpGet_def logPrintf_def emptyAssets_def)

text \<open>
  Claim C8, amended. The adapter requests the prices first and the 24h statistics second.
  When the price endpoint fails (fetch or decode) it logs once and returns both mappings
  empty, without a request to the 24h endpoint. When the prices decode and the 24h
  endpoint fails, it logs once and returns the prices (one key per symbol received) with
  empty changes. When both decode, each mapping has one key per symbol received. So the
  changes are populated only if both endpoints decoded; and no endpoint is requested
  twice.
\<close>

theorem getPricesAndChanges_degradation:
  "(tickerPrice a = FetchError \<or> tickerPrice a = DecodeError \<longrightarrow>
      (\<exists>w'. getPricesAndChanges lib a w = (Map.empty, Map.empty, w')
         \<and> fetched w' = fetched w @ [tickerPriceURL]
         \<and> logs w' = logs w @ [if tickerPrice a = FetchError then ErrorFetchingPrices
                                 else ErrorDecodingPriceData]))
   \<and> (tickerPrice a = Decoded priceData
        \<and> (ticker24hr a = FetchError \<or> ticker24hr a = DecodeError) \<longrightarrow>
      (\<exists>prices w'. getPricesAndChanges lib a w = (prices, Map.empty, w')
         \<and> dom prices = bpSymbol ` set priceData
         \<and> fetched w' = fetched w @ [tickerPriceURL,
                                       ticker24hrURL]
         \<and> logs w' = logs w @ [if ticker24hr a = FetchError then ErrorFetching24hChange
                                 else ErrorDecodingChangeData]))
   \<and> (tickerPrice a = Decoded priceData \<and> ticker24hr a = Decoded changeData \<longrightarrow>
      (\<exists>prices changes w'. getPricesAndChanges lib a w = (prices, changes, w')
         \<and> dom prices = bpSymbol ` set priceData
         \<and> dom changes = btSymbol ` set changeData
         \<and> fetched w' = fetched w @ [tickerPriceURL,
                                       ticker24hrURL]))
   \<and> (fst (snd (getPricesAndChanges lib a w)) \<noteq> Map.empty \<longrightarrow>
        (\<exists>priceData changeData.
           tickerPrice a = Decoded priceData \<and> ticker24hr a = Decoded changeData))
   \<and> length (fetched (snd (snd (getPricesAndChanges lib a w)))) \<le> length (fetched w) + 2"
proof (intro conjI impI)
  assume "tickerPrice a = FetchError \<or> tickerPrice a = DecodeError"
  then show "\<exists>w'. getPricesAndChanges lib a w = (Map.empty, Map.empty, w')
         \<and> fetched w' = fetched w @ [tickerPriceURL]
         \<and> logs w' = logs w @ [if tickerPrice a = FetchError then ErrorFetchingPrices
                                 else ErrorDecodingPriceData]"
    by (auto simp: getPricesAndChanges_def httpGet_def logPrintf_def)
next
  assume "tickerPrice a = Decoded priceData
        \<and> (ticker24hr a = FetchError \<or> ticker24hr a = DecodeError)"
  then show "\<exists>prices w'. getPricesAndChanges lib a w = (prices, Map.empty, w')
         \<and> dom prices = bpSymbol ` set priceData
         \<and> fetched w' = fetched w @ [tickerPriceURL,
                                       ticker24hrURL]
         \<and> logs w' = logs w @ [if ticker24hr a = FetchError then ErrorFetching24hChange
                                 else ErrorDecodingChangeData]"
    by (auto simp: getPricesAndChanges_def httpGet_def logPrintf_def dom_foldl_putPrice)
next
  assume ok: "tickerPrice a = Decoded priceData \<and> ticker24hr a = Decoded changeData"
  let ?w2 = "httpGet ticker24hrURL
               (httpGet tickerPriceURL w)"
  let ?r = "foldl (putChange lib) (Map.empty, ?w2) changeData"
  have r: "getPricesAndChanges lib a w = (foldl putPrice Map.empty priceData, fst ?r, snd ?r)"
    using ok by (simp add: getPricesAndChanges_def split_beta)
  have "dom (fst ?r) = btSymbol ` set changeData" "fetched (snd ?r) = fetched ?w2"
    using foldl_putChange [of lib Map.empty ?w2 changeData] by simp_all
  moreover have "fetched ?w2 = fetched w @ [tickerPriceURL,
                                       ticker24hrURL]"
    by (simp add: httpGet_def)
  moreover have "dom (foldl putPrice Map.empty priceData) = bpSymbol ` set priceData"
    by (simp add: dom_foldl_putPrice)
  ultimately have "getPricesAndChanges lib a w
                     = (foldl putPrice Map.empty priceData, fst ?r, snd ?r)
         \<and> dom (foldl putPrice Map.empty priceData) = bpSymbol ` set priceData
         \<and> dom (fst ?r) = btSymbol ` set changeData
         \<and> fetched (snd ?r) = fetched w @ [tickerPriceURL,
                                       ticker24hrURL]"
    using r by (simp only: simp_thms)
  then show "\<exists>prices changes w'. getPricesAndChanges lib a w = (prices, changes, w')
         \<and> dom prices = bpSymbol ` set priceData
         \<and> dom changes = btSymbol ` set changeData
         \<and> fetched w' = fetched w @ [tickerPriceURL,
                                       ticker24hrURL]"
    by - ((rule exI)+, assumption)
next
  assume "fst (snd (getPricesAndChanges lib a w)) \<noteq> Map.empty"
  then show "\<exists>priceData changeData.
           tickerPrice a = Decoded priceData \<and> ticker24hr a = Decoded changeData"
    by (cases "tickerPrice a"; cases "ticker24hr a")
      (simp_all add: getPricesAndChanges_def)
next
  show "length (fetched (snd (snd (getPricesAndChanges lib a w)))) \<le> length (fetched w) + 2"
  proof (cases "tickerPrice a")
    case FetchError
    then show ?thesis by (simp add: getPricesAndChanges_def httpGet_def logPrintf_def)
  next
    case DecodeError
    then show ?thesis by (simp add: getPricesAndChanges_def httpGet_def logPrintf_def)
  next
    case (Decoded priceData)
    show ?thesis
    proof (cases "ticker24hr a")
      case FetchError
      then show ?thesis
        using Decoded by (simp add: getPricesAndChanges_def httpGet_def logPrintf_def)
    next
      case DecodeError
      then show ?thesis
        using Decoded by (simp add: getPricesAndChanges_def httpGet_def logPrintf_def)
    next
      case inner: (Decoded changeData)
      have "fetched (snd (foldl (putChange lib)
              (Map.empty, httpGet ticker24hrURL (httpGet tickerPriceURL w)) changeData))
            = fetched (httpGet ticker24hrURL (httpGet tickerPriceURL w))"
        using foldl_putChange by blast
      then show ?thesis
        using Decoded inner by (simp add: getPricesAndChanges_def split_beta httpGet_def)
    qed
  qed
qed

theorem getPricesAndChanges_degradation_witness:
  "\<exists>prices w'.
     getPricesAndChanges asciiLib
       \<lparr>tickerPrice = Decoded [\<lparr>bpSymbol = ''BTCUSDT'', bpPrice = ''65000.00''\<rparr>],
        ticker24hr = FetchError\<rparr> emptyAssets
       = (prices, Map.empty, w')
     \<and> dom prices = {''BTCUSDT''}
     \<and> fetched w' = [tickerPriceURL, ticker24hrURL]
     \<and> logs w' = [ErrorFetching24hChange]"
  using getPricesAndChanges_degradation [where lib = asciiLib and w = emptyAssets
      and a = "\<lparr>tickerPrice = Decoded [\<lparr>bpSymbol = ''BTCUSDT'', bpPrice = ''65000.00''\<rparr>],
                ticker24hr = FetchError\<rparr>"
      and priceData = "[\<lparr>bpSymbol = ''BTCUSDT'', bpPrice = ''65000.00''\<rparr>]"
      and changeData = "[]"]
  by (simp add: emptyAssets_def)

section \<open>Properties of the snapshot\<close>

lemma onDiv_divNamed:
  "onDiv lib req Map.empty Map.empty (w, rs) (divNamed n)
     = (w, if n = [] then rs else rs @ [entryNamed n])"
  by (simp add: onDiv_def divNamed_def entryNamed_def goMapGet_def)

lemma foldl_onDiv_divNamed:
  "foldl (onDiv lib req Map.empty Map.empty) (w, rs) (map divNamed names)
     = (w, rs @ map entryNamed (filter (\<lambda>n. n \<noteq> []) names))"
  by (induction names arbitrary: rs) (simp_all add: onDiv_divNamed)

lemma scrape_divNamed:
  "scrape lib req Map.empty Map.empty w (map divNamed names)
     = (w, map entryNamed (filter (\<lambda>n. n \<noteq> []) names))"
  by (simp add: scrape_def foldl_onDiv_divNamed)

lemma getPricesAndChanges_noPrices:
  "getPricesAndChanges lib noPrices w
     = (Map.empty, Map.empty, httpGet ticker24hrURL (httpGet tickerPriceURL w))"
  by (simp add: getPricesAndChanges_def noPrices_def)

lemma foldl_onDiv_labels:
  "map (\<lambda>e. (Index e, Name e)) (snd (foldl (onDiv lib req prices changes) (w, rs) divs))
     = map (\<lambda>e. (Index e, Name e)) rs
       @ map (\<lambda>d. (divIndex d, divName d)) (filter (\<lambda>d. divName d \<noteq> []) divs)"
proof (induction divs arbitrary: w rs)
  case Nil
  then show ?case by simp
next
  case (Cons d divs)
  show ?case
  proof (cases "divName d = []")
    case True
    then show ?thesis using Cons.IH [of w rs] by (simp add: onDiv_skip)
  next
    case False
    from onDiv_append [OF False, of lib req prices changes w rs]
    obtain w' e where
      step: "onDiv lib req prices changes (w, rs) d = (w', rs @ [e])"
      and "Index e = divIndex d" "Name e = divName d"
      by blast
    then show ?thesis using False Cons.IH [of w' "rs @ [e]"] by simp
  qed
qed

lemma goMapGet_empty: "goMapGet Map.empty k = []"
  by (simp add: goMapGet_def)

text \<open>
  Claim C7 fails as stated: with both price maps empty and a page of 41 named item blocks,
  the map that \<open>handleRequest\<close> sends holds the first 40 entries; the entry of the 41st
  block is in none of its four buckets.
\<close>

theorem snapshot_drops_entries_counterexample:
  "handleRequest asciiLib plainRequest noPrices
     (Visited (map divNamed (replicate 10 ''BTC'' @ replicate 10 ''ETH'' @ replicate 10 ''BNB''
                              @ replicate 10 ''SOL'' @ [''XRP''])))
     emptyAssets
   = Inr ([''Populares'' \<mapsto> replicate 10 (entryNamed ''BTC''),
           ''Ganadores'' \<mapsto> replicate 10 (entryNamed ''ETH''),
           ''Perdedores'' \<mapsto> replicate 10 (entryNamed ''BNB''),
           ''MayorVolumen'' \<mapsto> replicate 10 (entryNamed ''SOL'')],
          httpGet ticker24hrURL (httpGet tickerPriceURL emptyAssets))
   \<and> entryNamed ''XRP''
       \<notin> set (replicate 10 (entryNamed ''BTC'') @ replicate 10 (entryNamed ''ETH'')
                @ replicate 10 (entryNamed ''BNB'') @ replicate 10 (entryNamed ''SOL''))"
proof -
  let ?names = "replicate 10 ''BTC'' @ replicate 10 ''ETH'' @ replicate 10 ''BNB''
                  @ replicate 10 ''SOL'' @ [''XRP'']"
  let ?rs = "replicate 10 (entryNamed ''BTC'') @ replicate 10 (entryNamed ''ETH'')
               @ replicate 10 (entryNamed ''BNB'') @ replicate 10 (entryNamed ''SOL'')
               @ [entryNamed ''XRP'']"
  have f: "map entryNamed (filter (\<lambda>n. n \<noteq> []) ?names) = ?rs"
    by (simp add: map_replicate)
  have "31 \<le> length ?rs" by simp
  from categorize_ok [OF this]
  have c: "categorize ?rs = Inr [''Populares'' \<mapsto> replicate 10 (entryNamed ''BTC''),
           ''Ganadores'' \<mapsto> replicate 10 (entryNamed ''ETH''),
           ''Perdedores'' \<mapsto> replicate 10 (entryNamed ''BNB''),
           ''MayorVolumen'' \<mapsto> replicate 10 (entryNamed ''SOL'')]"
    by simp
  have "handleRequest asciiLib plainRequest noPrices (Visited (map divNamed ?names)) emptyAssets
          = Inr ([''Populares'' \<mapsto> replicate 10 (entryNamed ''BTC''),
                  ''Ganadores'' \<mapsto> replicate 10 (entryNamed ''ETH''),
                  ''Perdedores'' \<mapsto> replicate 10 (entryNamed ''BNB''),
                  ''MayorVolumen'' \<mapsto> replicate 10 (entryNamed ''SOL'')],
                 httpGet ticker24hrURL (httpGet tickerPriceURL emptyAssets))"
    by (simp only: handleRequest_Visited getPricesAndChanges_noPrices Let_def fst_conv snd_conv
        scrape_divNamed f c sum.case)
  moreover have "entryNamed ''XRP''
       \<notin> set (replicate 10 (entryNamed ''BTC'') @ replicate 10 (entryNamed ''ETH'')
                @ replicate 10 (entryNamed ''BNB'') @ replicate 10 (entryNamed ''SOL''))"
    by (simp add: entryNamed_def)
  ultimately show ?thesis by (rule conjI)
qed

text \<open>
  Claim C7, amended. The result sequence of a visit has one entry for every item block
  with a non-empty name, in page order, and none for a block with an empty name. Price
  and change of an entry are the two maps read at its symbol, and a symbol missing from a
  map reads as the empty string; so with both maps empty every entry has an empty price
  and an empty change. The map that \<open>handleRequest\<close> sends, when it sends one, holds the
  first 40 entries of the result sequence in four groups of ten.
\<close>

theorem join_keeps_named_entries:
  "map (\<lambda>e. (Index e, Name e)) (snd (scrape lib req prices changes w divs))
     = map (\<lambda>d. (divIndex d, divName d)) (filter (\<lambda>d. divName d \<noteq> []) divs)
   \<and> list_all (\<lambda>e. Price e = goMapGet prices (ToUpper lib (Name e) @ ''USDT'')
                 \<and> Change24h e = goMapGet changes (ToUpper lib (Name e) @ ''USDT''))
        (snd (scrape lib req prices changes w divs))
   \<and> (prices k = None \<longrightarrow> goMapGet prices k = [])
   \<and> list_all (\<lambda>e. Price e = [] \<and> Change24h e = [])
        (snd (scrape lib req Map.empty Map.empty w divs))
   \<and> (handleRequest lib req a (Visited divs) w = Inr (categorizedResults, w') \<longrightarrow>
        (let g = getPricesAndChanges lib a w;
             allResults = snd (scrape lib req (fst g) (fst (snd g)) (snd (snd g)) divs)
         in categorizedResults
              = [''Populares'' \<mapsto> take 10 allResults,
                 ''Ganadores'' \<mapsto> take 10 (drop 10 allResults),
                 ''Perdedores'' \<mapsto> take 10 (drop 20 allResults),
                 ''MayorVolumen'' \<mapsto> take 10 (drop 30 allResults)]))"
proof (intro conjI impI)
  show "map (\<lambda>e. (Index e, Name e)) (snd (scrape lib req prices changes w divs))
     = map (\<lambda>d. (divIndex d, divName d)) (filter (\<lambda>d. divName d \<noteq> []) divs)"
    using foldl_onDiv_labels [of lib req prices changes w "[]" divs] by (simp add: scrape_def)
next
  have "list_all (\<lambda>e. Name e \<noteq> []
        \<and> Price e = goMapGet prices (ToUpper lib (Name e) @ ''USDT'')
        \<and> Change24h e = goMapGet changes (ToUpper lib (Name e) @ ''USDT''))
     (snd (scrape lib req prices changes w divs))"
    unfolding scrape_def by (rule foldl_onDiv_joined) simp
  then show "list_all (\<lambda>e. Price e = goMapGet prices (ToUpper lib (Name e) @ ''USDT'')
                 \<and> Change24h e = goMapGet changes (ToUpper lib (Name e) @ ''USDT''))
        (snd (scrape lib req prices changes w divs))"
    by (simp add: list_all_iff)
next
  assume "prices k = None"
  then show "goMapGet prices k = []" by (simp add: goMapGet_def)
next
  have "list_all (\<lambda>e. Name e \<noteq> []
        \<and> Price e = goMapGet Map.empty (ToUpper lib (Name e) @ ''USDT'')
        \<and> Change24h e = goMapGet Map.empty (ToUpper lib (Name e) @ ''USDT''))
     (snd (scrape lib req Map.empty Map.empty w divs))"
    unfolding scrape_def by (rule foldl_onDiv_joined) simp
  then show "list_all (\<lambda>e. Price e = [] \<and> Change24h e = [])
        (snd (scrape lib req Map.empty Map.empty w divs))"
    by (simp add: list_all_iff goMapGet_empty)
next
  assume ok: "handleRequest lib req a (Visited divs) w = Inr (categorizedResults, w')"
  let ?g = "getPricesAndChanges lib a w"
  let ?rs = "snd (scrape lib req (fst ?g) (fst (snd ?g)) (snd (snd ?g)) divs)"
  have c: "categorize ?rs = Inr categorizedResults"
    using ok by (simp add: handleRequest_Visited Let_def split: sum.splits)
  have "31 \<le> length ?rs"
  proof (rule ccontr)
    assume "\<not> 31 \<le> length ?rs"
    then have "length ?rs < 31" by simp
    from categorize_underflow_aux [OF this] c show False by simp
  qed
  from categorize_ok [OF this] c
  have "categorizedResults = [''Populares'' \<mapsto> take 10 ?rs,
                 ''Ganadores'' \<mapsto> take 10 (drop 10 ?rs),
                 ''Perdedores'' \<mapsto> take 10 (drop 20 ?rs),
                 ''MayorVolumen'' \<mapsto> take 10 (drop 30 ?rs)]"
    by simp
  then show "let g = getPricesAndChanges lib a w;
             allResults = snd (scrape lib req (fst g) (fst (snd g)) (snd (snd g)) divs)
         in categorizedResults
              = [''Populares'' \<mapsto> take 10 allResults,
                 ''Ganadores'' \<mapsto> take 10 (drop 10 allResults),
                 ''Perdedores'' \<mapsto> take 10 (drop 20 allResults),
                 ''MayorVolumen'' \<mapsto> take 10 (drop 30 allResults)]"
    by (simp only: Let_def)
qed

theorem join_keeps_named_entries_witness:
  "handleRequest asciiLib plainRequest noPrices
       (Visited (map divNamed (replicate 30 ''BTC'' @ [[], ''ETH''])))
       emptyAssets
     = Inr ([''Populares'' \<mapsto> replicate 10 (entryNamed ''BTC''),
             ''Ganadores'' \<mapsto> replicate 10 (entryNamed ''BTC''),
             ''Perdedores'' \<mapsto> replicate 10 (entryNamed ''BTC''),
             ''MayorVolumen'' \<mapsto> [entryNamed ''ETH'']],
            httpGet ticker24hrURL (httpGet tickerPriceURL emptyAssets))
   \<and> Map.empty ''ETHUSDT'' = (None :: string option)"
proof -
  let ?divs = "map divNamed (replicate 30 ''BTC'' @ [[], ''ETH''])"
  let ?w1 = "httpGet ticker24hrURL (httpGet tickerPriceURL emptyAssets)"
  let ?rs = "replicate 30 (entryNamed ''BTC'') @ [entryNamed ''ETH'']"
  have f: "map entryNamed (filter (\<lambda>n. n \<noteq> []) (replicate 30 ''BTC'' @ [[], ''ETH''])) = ?rs"
    by (simp add: map_replicate)
  have s: "scrape asciiLib plainRequest Map.empty Map.empty ?w1 ?divs = (?w1, ?rs)"
    by (simp only: scrape_divNamed f)
  have "31 \<le> length ?rs" by simp
  from categorize_ok [OF this] obtain m where c: "categorize ?rs = Inr m" by blast
  have h: "handleRequest asciiLib plainRequest noPrices (Visited ?divs) emptyAssets = Inr (m, ?w1)"
    by (simp only: handleRequest_Visited getPricesAndChanges_noPrices Let_def fst_conv snd_conv
        s c sum.case)
  from join_keeps_named_entries [where lib = asciiLib and req = plainRequest and a = noPrices
      and divs = ?divs and w = emptyAssets and categorizedResults = m and w' = ?w1
      and prices = Map.empty and changes = Map.empty and k = "''ETHUSDT''"] h
  have "m = [''Populares'' \<mapsto> take 10 ?rs, ''Ganadores'' \<mapsto> take 10 (drop 10 ?rs),
             ''Perdedores'' \<mapsto> take 10 (drop 20 ?rs), ''MayorVolumen'' \<mapsto> take 10 (drop 30 ?rs)]"
    by (simp only: getPricesAndChanges_noPrices Let_def fst_conv snd_conv s simp_thms)
  then have "m = [''Populares'' \<mapsto> replicate 10 (entryNamed ''BTC''),
             ''Ganadores'' \<mapsto> replicate 10 (entryNamed ''BTC''),
             ''Perdedores'' \<mapsto> replicate 10 (entryNamed ''BTC''),
             ''MayorVolumen'' \<mapsto> [entryNamed ''ETH'']]"
    by simp
  then show ?thesis using h by simp
qed

section \<open>Properties of formatChange\<close>












end
